theory Spec2Isabelle
  imports Complex_Main
begin

section \<open>JavaScript values\<close>

text \<open>
  The library is untyped at run time: \<open>check\<close>, \<open>when\<close> and \<open>every\<close> take any
  JavaScript value and look only at two things, its \<open>typeof\<close> and its boolean coercion.
  Numbers are IEEE doubles: the three non-finite values and negative zero are kept apart
  from the finite ones, which are rationals here (\<open>Fin 0\<close> is positive zero). Objects
  (plain objects, dates, regular expressions, maps, sets) are references; a function value
  is a reference into a table of function bodies.
\<close>

datatype jsnum = NaN | PosInf | NegInf | NegZero | Fin rat

datatype jsval =
    Undefined
  | Null
  | Boolean bool
  | Number jsnum
  | BigInt int
  | Str string
  | Symbol nat
  | Object nat
  | Array "jsval list"
  | Function nat

text \<open>What a call can throw: any value, or the TypeError of calling a non-function.\<close>

datatype jserr = TypeError | Thrown jsval

text \<open>
  A call either throws (\<open>Inl\<close>) or returns a value (\<open>Inr\<close>), and leaves a new state
  behind. The state \<open>'s\<close> is whatever the user's functions read and write (signals,
  counters, logs).
\<close>

type_synonym 's outcome = "(jserr + jsval) \<times> 's"

type_synonym 's jsfun = "jsval list \<Rightarrow> 's \<Rightarrow> 's outcome"

type_synonym 's fenv = "nat \<Rightarrow> 's jsfun"

text \<open>The \<open>typeof\<close> operator.\<close>

fun typeof :: "jsval \<Rightarrow> string" where
  "typeof Undefined = ''undefined''"
| "typeof Null = ''object''"
| "typeof (Boolean b) = ''boolean''"
| "typeof (Number n) = ''number''"
| "typeof (BigInt i) = ''bigint''"
| "typeof (Str s) = ''string''"
| "typeof (Symbol k) = ''symbol''"
| "typeof (Object r) = ''object''"
| "typeof (Array vs) = ''object''"
| "typeof (Function f) = ''function''"

text \<open>Boolean coercion, as the condition of \<open>value ? ... : ...\<close> and of \<open>!_value\<close>.\<close>

fun truthy :: "jsval \<Rightarrow> bool" where
  "truthy Undefined = False"
| "truthy Null = False"
| "truthy (Boolean b) = b"
| "truthy (Number n) = (n \<noteq> NaN \<and> n \<noteq> NegZero \<and> n \<noteq> Fin 0)"
| "truthy (BigInt i) = (i \<noteq> 0)"
| "truthy (Str s) = (s \<noteq> [])"
| "truthy (Symbol k) = True"
| "truthy (Object r) = True"
| "truthy (Array vs) = True"
| "truthy (Function f) = True"

text \<open>Calling a value: the body of a function, a TypeError for anything else.\<close>

fun call :: "'s fenv \<Rightarrow> jsval \<Rightarrow> jsval list \<Rightarrow> 's \<Rightarrow> 's outcome" where
  "call env (Function f) args s = env f args s"
| "call env v args s = (Inl TypeError, s)"

text \<open>The first parameter of an arrow function \<open>value => ...\<close>: undefined when not passed.\<close>

fun arg0 :: "jsval list \<Rightarrow> jsval" where
  "arg0 [] = Undefined"
| "arg0 (v # vs) = v"

section \<open>Utils\<close>

text \<open>
  \<^verbatim>\<open>function resolve(value) { return typeof value !== 'function' ? value : value() }\<close>
\<close>

definition resolve :: "'s fenv \<Rightarrow> jsval \<Rightarrow> 's \<Rightarrow> 's outcome" where
  "resolve env v s = (if typeof v \<noteq> ''function'' then (Inr v, s) else call env v [] s)"

section \<open>Core\<close>

text \<open>
  \<^verbatim>\<open>const value = resolve(accessor)
  return value ? callback(value) : fallback ? fallback() : undefined\<close>
  The callback has the type \<open>Fn\<close> and the fallback \<open>Fn | undefined\<close>.
\<close>

definition check :: "'s fenv \<Rightarrow> jsval \<Rightarrow> 's jsfun \<Rightarrow> 's jsfun option \<Rightarrow> 's \<Rightarrow> 's outcome" where
  "check env accessor callback fallback s =
     (case resolve env accessor s of
        (Inl e, s') \<Rightarrow> (Inl e, s')
      | (Inr v, s') \<Rightarrow>
          if truthy v then callback [v] s'
          else (case fallback of Some fb \<Rightarrow> fb [] s' | None \<Rightarrow> (Inr Undefined, s')))"

text \<open>
  The function \<open>when\<close> of the source (the word is a keyword of Isar, hence the name):
  \<^verbatim>\<open>return (...args) => check(accessor, value => callback(value, ...args),
                                fallback ? () => fallback(...args) : undefined)\<close>
\<close>

definition when_fn :: "'s fenv \<Rightarrow> jsval \<Rightarrow> 's jsfun \<Rightarrow> 's jsfun option \<Rightarrow> 's jsfun" where
  "when_fn env accessor callback fallback =
     (\<lambda>args. check env accessor
        (\<lambda>vs. callback (arg0 vs # args))
        (case fallback of Some fb \<Rightarrow> Some (\<lambda>_. fb args) | None \<Rightarrow> None))"

text \<open>
  The loop of \<open>every\<close>: \<open>values\<close> starts as \<open>new Array(accessors.length)\<close>, whose empty
  slots read as undefined, and \<open>values[i] = _value\<close> is always in range.
\<close>

function every_loop :: "'s fenv \<Rightarrow> jsval list \<Rightarrow> nat \<Rightarrow> jsval list \<Rightarrow> 's \<Rightarrow> 's outcome" where
  "every_loop env accessors i vals s =
     (if i < length accessors then
        (case resolve env (accessors ! i) s of
           (Inl e, s') \<Rightarrow> (Inl e, s')
         | (Inr v, s') \<Rightarrow>
             if \<not> truthy v then (Inr Undefined, s')
             else every_loop env accessors (i + 1) (vals[i := v]) s')
      else (Inr (Array vals), s))"
  by pat_completeness auto
termination
  by (relation "measure (\<lambda>(env, accessors, i, vals, s). length accessors - i)") auto

declare every_loop.simps [simp del]

definition every :: "'s fenv \<Rightarrow> jsval list \<Rightarrow> 's jsfun" where
  "every env accessors =
     (\<lambda>args. every_loop env accessors 0 (replicate (length accessors) Undefined))"

text \<open>
  \<^verbatim>\<open>return function (accessor, callback, fallback) { return fn(when(accessor, callback, fallback)) }\<close>
\<close>

definition whenify :: "'s fenv \<Rightarrow> ('s jsfun \<Rightarrow> 'r) \<Rightarrow> jsval \<Rightarrow> 's jsfun \<Rightarrow> 's jsfun option \<Rightarrow> 'r" where
  "whenify env fn = (\<lambda>accessor callback fallback. fn (when_fn env accessor callback fallback))"

section \<open>Solid wrappers\<close>

text \<open>
  \<open>createMemo\<close> belongs to solid-js, which is not part of the sources. The spec
  (sections 4.5 and 6) and the tests fix what the adapter needs of such a memo-like host:
  it owns one slot for the previous result; on each invocation, which only its scheduler
  triggers, it calls the compute function with the slot as the one argument and stores the
  returned value in the slot.
\<close>

text \<open>
  Modelled from the spec: the state of a memo of the host, which is missing from the
  sources: its compute function and the slot of the previous result.
\<close>

record 's memo =
  compute :: "'s jsfun"
  previous :: jsval

text \<open>
  Modelled from the spec: the host's constructor, missing from the sources. \<open>whenify\<close>
  passes it the compute function and no initial value, so the slot starts as undefined
  (the tests expect undefined as the first previous value).
\<close>

definition createMemo :: "'s jsfun \<Rightarrow> 's memo" where
  "createMemo fn = \<lparr>compute = fn, previous = Undefined\<rparr>"

text \<open>
  Modelled from the spec: what the host, missing from the sources, does with the outcome
  of the compute function. A returned value goes into the slot; an error aborts the
  invocation and is handed on.
\<close>

fun store_result :: "'s memo \<Rightarrow> 's outcome \<Rightarrow> (jserr + 's memo) \<times> 's" where
  "store_result m (Inl e, s) = (Inl e, s)"
| "store_result m (Inr r, s) = (Inr (m\<lparr>previous := r\<rparr>), s)"

text \<open>
  Modelled from the spec: one invocation of a memo by the host, missing from the sources.
  The previous result is the one argument of the compute function.
\<close>

definition invoke_memo :: "'s memo \<Rightarrow> 's \<Rightarrow> (jserr + 's memo) \<times> 's" where
  "invoke_memo m s = store_result m (compute m [previous m] s)"

text \<open>\<^verbatim>\<open>export const whenMemo = whenify(createMemo)\<close>\<close>

definition whenMemo :: "'s fenv \<Rightarrow> jsval \<Rightarrow> 's jsfun \<Rightarrow> 's jsfun option \<Rightarrow> 's memo" where
  "whenMemo env = whenify env createMemo"

section \<open>Resolution in order\<close>

text \<open>
  What the statements about \<open>every\<close> are measured against: the inputs resolved one
  after the other from the left, each in the state the one before left behind, up to the
  first one that throws.
\<close>

fun resolve_in_order :: "'s fenv \<Rightarrow> jsval list \<Rightarrow> 's \<Rightarrow> (jserr + jsval list) \<times> 's" where
  "resolve_in_order env [] s = (Inr [], s)"
| "resolve_in_order env (a # as) s =
     (case resolve env a s of
        (Inl e, s') \<Rightarrow> (Inl e, s')
      | (Inr v, s') \<Rightarrow>
          (case resolve_in_order env as s' of
             (Inl e, s'') \<Rightarrow> (Inl e, s'')
           | (Inr vs, s'') \<Rightarrow> (Inr (v # vs), s'')))"

section \<open>Test doubles\<close>

text \<open>
  The repository's tests observe calls with recording functions (\<open>vi.fn\<close>) and drive
  the inputs with a signal. The same here: the state holds the current value of one signal
  and the record of every call made to a recording function, in the order of the calls.
\<close>

datatype callee = Callback | Fallback | Producer nat | Constructor

record world =
  signal :: jsval
  calls :: "(callee \<times> jsval list) list"

type_synonym impl = "jsval list \<Rightarrow> world \<Rightarrow> jserr + jsval"

definition mock :: "callee \<Rightarrow> impl \<Rightarrow> world jsfun" where
  "mock name body = (\<lambda>args w. (body args w, w\<lparr>calls := calls w @ [(name, args)]\<rparr>))"

definition returns :: "jsval \<Rightarrow> impl" where
  "returns v = (\<lambda>args w. Inr v)"

definition throws :: "string \<Rightarrow> impl" where
  "throws msg = (\<lambda>args w. Inl (Thrown (Str msg)))"

definition identity :: impl where
  "identity = (\<lambda>args w. Inr (arg0 args))"

definition arguments :: impl where
  "arguments = (\<lambda>args w. Inr (Array args))"

definition read_signal :: impl where
  "read_signal = (\<lambda>args w. Inr (signal w))"

text \<open>
  The function values of the tests: 0 reads the signal, 1 throws, 2 returns itself,
  3 returns another function, every other one returns true. Each records its calls.
\<close>

definition test_env :: "world fenv" where
  "test_env f =
     mock (Producer f)
       (if f = 0 then read_signal
        else if f = 1 then throws ''Accessor error''
        else if f = 2 then returns (Function 2)
        else if f = 3 then returns (Function 4)
        else returns (Boolean True))"

definition double :: impl where
  "double = (\<lambda>args w. case arg0 args of
      Number (Fin q) \<Rightarrow> Inr (Number (Fin (q * 2)))
    | v \<Rightarrow> Inr (Number NaN))"

text \<open>The wrapped function of the tests of \<open>whenify\<close>: \<^verbatim>\<open>vi.fn(fn => fn())\<close>.\<close>

definition invoke_now :: "world jsfun \<Rightarrow> world \<Rightarrow> world outcome" where
  "invoke_now fn w = fn [] (w\<lparr>calls := calls w @ [(Constructor, [])]\<rparr>)"

text \<open>
  The memos of the tests of \<open>whenMemo\<close>: the signal as input, the callback doubling
  it, and the fallback returning -1 or no fallback.
\<close>

definition memo_with_fallback :: "world memo" where
  "memo_with_fallback =
     whenMemo test_env (Function 0) (mock Callback double)
       (Some (mock Fallback (returns (Number (Fin (- 1))))))"

definition memo_without_fallback :: "world memo" where
  "memo_without_fallback = whenMemo test_env (Function 0) (mock Callback double) None"

definition memo_returning_undefined :: "world memo" where
  "memo_returning_undefined =
     whenMemo test_env (Boolean True) (mock Callback (returns Undefined)) None"

definition world0 :: world where
  "world0 = \<lparr>signal = Null, calls = []\<rparr>"

definition signal_is :: "jsval \<Rightarrow> world" where
  "signal_is v = \<lparr>signal = v, calls = []\<rparr>"

section \<open>Truthiness\<close>

lemma falsy_values:
  "(\<not> truthy v) = (v \<in> {Boolean False, Number (Fin 0), Number NegZero, Str [], Null,
      Undefined, Number NaN, BigInt 0})"
proof (cases v)
  case (Number n)
  then show ?thesis by (cases n) auto
qed auto

lemma resolve_literal: "typeof v \<noteq> ''function'' \<Longrightarrow> resolve env v s = (Inr v, s)"
  by (simp add: resolve_def)

lemma resolve_function: "resolve env (Function f) s = env f [] s"
  by (simp add: resolve_def)

section \<open>The guarded invoker\<close>

lemma check_resolved:
  assumes "resolve env input s = (Inr v, s')"
  shows "check env input cb fb s =
    (if truthy v then cb [v] s'
     else case fb of Some f \<Rightarrow> f [] s' | None \<Rightarrow> (Inr Undefined, s'))"
  using assms by (simp add: check_def)

lemma check_throws:
  assumes "resolve env input s = (Inl e, s')"
  shows "check env input cb fb s = (Inl e, s')"
  using assms by (simp add: check_def)

text \<open>
  C1. Let the input resolve to \<open>v\<close>, leaving the state \<open>s'\<close>. If \<open>v\<close> is one of
  false, 0, -0, the empty string, null, undefined, NaN and 0n, then \<open>check\<close> without a
  fallback returns undefined in the state \<open>s'\<close>, whatever the callback is: the callback
  has not run. For every other \<open>v\<close> the call is exactly one run of the callback on
  \<open>v\<close> from \<open>s'\<close>, and its result is the result of \<open>check\<close>. In all cases what
  runs after the resolution is exactly one of: the callback, the fallback, nothing.
\<close>

theorem check_truthiness_gate:
  assumes "resolve env input s = (Inr v, s')"
  shows "(v \<in> {Boolean False, Number (Fin 0), Number NegZero, Str [], Null, Undefined,
               Number NaN, BigInt 0}
            \<longrightarrow> check env input cb None s = (Inr Undefined, s'))
       \<and> (v \<notin> {Boolean False, Number (Fin 0), Number NegZero, Str [], Null, Undefined,
               Number NaN, BigInt 0}
            \<longrightarrow> check env input cb fb s = cb [v] s')
       \<and> check env input cb fb s =
           (if truthy v then cb [v] s'
            else case fb of Some f \<Rightarrow> f [] s' | None \<Rightarrow> (Inr Undefined, s'))"
proof -
  have gate: "check env input cb fb s =
      (if truthy v then cb [v] s'
       else case fb of Some f \<Rightarrow> f [] s' | None \<Rightarrow> (Inr Undefined, s'))" for fb
    using assms by (rule check_resolved)
  show ?thesis
    unfolding falsy_values [symmetric] using gate [of fb] gate [of None] by simp
qed

theorem check_truthiness_gate_witness:
  "resolve test_env Null world0 = (Inr Null, world0)
   \<and> Null \<in> {Boolean False, Number (Fin 0), Number NegZero, Str [], Null, Undefined,
               Number NaN, BigInt 0}
   \<and> check test_env Null (mock Callback identity) None world0 = (Inr Undefined, world0)
   \<and> resolve test_env (Str ''0'') world0 = (Inr (Str ''0''), world0)
   \<and> Str ''0'' \<notin> {Boolean False, Number (Fin 0), Number NegZero, Str [], Null, Undefined,
               Number NaN, BigInt 0}
   \<and> check test_env (Str ''0'') (mock Callback identity) (Some (mock Fallback (returns Null))) world0
       = (Inr (Str ''0''), world0\<lparr>calls := [(Callback, [Str ''0''])]\<rparr>)"
proof -
  have r1: "resolve test_env Null world0 = (Inr Null, world0)"
    by (simp add: resolve_def)
  have r2: "resolve test_env (Str ''0'') world0 = (Inr (Str ''0''), world0)"
    by (simp add: resolve_def)
  show ?thesis
    using r1 r2
      check_truthiness_gate [OF r1, of "mock Callback identity" None]
      check_truthiness_gate [OF r2, of "mock Callback identity"
        "Some (mock Fallback (returns Null))"]
    by (simp add: mock_def identity_def world0_def)
qed

section \<open>The argument-forwarding gate\<close>

lemma when_resolved:
  assumes "resolve env input s = (Inr v, s')"
  shows "when_fn env input cb fb args s =
    (if truthy v then cb (v # args) s'
     else case fb of Some f \<Rightarrow> f args s' | None \<Rightarrow> (Inr Undefined, s'))"
  using assms by (simp add: when_fn_def check_def split: option.splits)

lemma when_throws:
  assumes "resolve env input s = (Inl e, s')"
  shows "when_fn env input cb fb args s = (Inl e, s')"
  using assms by (simp add: when_fn_def check_def)

text \<open>
  C2. A call of the gated function with the arguments \<open>args\<close> is
  \<open>check(input, v => cb(v, ...args), fb ? () => fb(...args) : undefined)\<close>. It resolves
  the input in the state of that call, whatever happened in earlier calls: when the input
  resolves to \<open>v\<close>, the callback runs on \<open>v\<close> followed by \<open>args\<close> in their order
  if \<open>v\<close> is truthy, and otherwise the fallback runs on exactly \<open>args\<close>.
\<close>

theorem when_forwards_arguments:
  "when_fn env input cb fb args s =
     check env input (\<lambda>vs. cb (arg0 vs # args))
       (case fb of Some f \<Rightarrow> Some (\<lambda>vs. f args) | None \<Rightarrow> None) s
   \<and> (resolve env input s = (Inr v, s') \<longrightarrow>
        when_fn env input cb fb args s =
          (if truthy v then cb (v # args) s'
           else case fb of Some f \<Rightarrow> f args s' | None \<Rightarrow> (Inr Undefined, s')))"
  by (simp add: when_resolved) (simp add: when_fn_def)

text \<open>
  The same gated function called twice, the signal written in between: the first call
  runs the fallback on the two arguments, the second the callback on the signal's new
  value and the two arguments.
\<close>

theorem when_forwards_arguments_witness:
  "resolve test_env (Function 0) world0 = (Inr Null, world0\<lparr>calls := [(Producer 0, [])]\<rparr>)
   \<and> when_fn test_env (Function 0) (mock Callback arguments) (Some (mock Fallback arguments))
         [Number (Fin 1), Str ''test''] world0
       = (Inr (Array [Number (Fin 1), Str ''test'']),
          world0\<lparr>calls := [(Producer 0, []), (Fallback, [Number (Fin 1), Str ''test''])]\<rparr>)
   \<and> resolve test_env (Function 0) (world0\<lparr>signal := Number (Fin 5)\<rparr>)
       = (Inr (Number (Fin 5)), \<lparr>signal = Number (Fin 5), calls = [(Producer 0, [])]\<rparr>)
   \<and> when_fn test_env (Function 0) (mock Callback arguments) (Some (mock Fallback arguments))
         [Number (Fin 1), Str ''test''] (world0\<lparr>signal := Number (Fin 5)\<rparr>)
       = (Inr (Array [Number (Fin 5), Number (Fin 1), Str ''test'']),
          \<lparr>signal = Number (Fin 5),
           calls = [(Producer 0, []), (Callback, [Number (Fin 5), Number (Fin 1), Str ''test''])]\<rparr>)"
proof -
  have r1: "resolve test_env (Function 0) world0
      = (Inr Null, world0\<lparr>calls := [(Producer 0, [])]\<rparr>)"
    by (simp add: resolve_def test_env_def mock_def read_signal_def world0_def)
  have r2: "resolve test_env (Function 0) (world0\<lparr>signal := Number (Fin 5)\<rparr>)
      = (Inr (Number (Fin 5)), \<lparr>signal = Number (Fin 5), calls = [(Producer 0, [])]\<rparr>)"
    by (simp add: resolve_def test_env_def mock_def read_signal_def world0_def)
  note g = when_forwards_arguments [of test_env "Function 0" "mock Callback arguments"
      "Some (mock Fallback arguments)" "[Number (Fin 1), Str ''test'']",
      THEN conjunct2, rule_format]
  show ?thesis
    using r1 r2 g [OF r1] g [OF r2]
    by (simp add: mock_def arguments_def world0_def)
qed

section \<open>The adapter\<close>

text \<open>
  C5. \<open>whenify(fn)(input, callback, fallback)\<close> is \<open>fn(when(input, callback, fallback))\<close>:
  one application of \<open>fn\<close> to the gated function, whose value is returned as it is.
\<close>

theorem whenify_is_fn_of_when:
  "whenify env fn input cb fb = fn (when_fn env input cb fb)"
  by (simp add: whenify_def)

theorem whenify_is_fn_of_when_witness:
  "whenify test_env invoke_now (Boolean True) (mock Callback (returns (Str ''success''))) None world0
     = (Inr (Str ''success''), world0\<lparr>calls := [(Constructor, []), (Callback, [Boolean True])]\<rparr>)"
  using whenify_is_fn_of_when [of test_env invoke_now "Boolean True"
      "mock Callback (returns (Str ''success''))" None]
  by (simp add: invoke_now_def when_fn_def check_def resolve_def mock_def returns_def world0_def)

section \<open>The conjunction\<close>

lemma every_Nil: "every env [] args s = (Inr (Array []), s)"
  by (simp add: every_def every_loop.simps)

lemma every_loop_shift:
  "every_loop env (a # as) (Suc i) (v0 # vals) s =
     (case every_loop env as i vals s of
        (Inr (Array ws), s') \<Rightarrow> (Inr (Array (v0 # ws)), s')
      | r \<Rightarrow> r)"
proof (induction env as i vals s rule: every_loop.induct)
  case (1 env accessors i vals s)
  show ?case
  proof (cases "i < length accessors")
    case False
    then show ?thesis
      by (simp add: every_loop.simps [of env "a # accessors" "Suc i"]
          every_loop.simps [of env accessors i])
  next
    case True
    obtain r s' where res: "resolve env (accessors ! i) s = (r, s')"
      by (cases "resolve env (accessors ! i) s")
    show ?thesis
    proof (cases r)
      case (Inl e)
      with True res show ?thesis
        by (simp add: every_loop.simps [of env "a # accessors" "Suc i"]
            every_loop.simps [of env accessors i])
    next
      case (Inr v)
      show ?thesis
      proof (cases "truthy v")
        case False
        with True res Inr show ?thesis
          by (simp add: every_loop.simps [of env "a # accessors" "Suc i"]
              every_loop.simps [of env accessors i])
      next
        case tv: True
        have ih: "every_loop env (a # accessors) (Suc (i + 1)) (v0 # vals[i := v]) s' =
            (case every_loop env accessors (i + 1) (vals[i := v]) s' of
               (Inr (Array ws), s'') \<Rightarrow> (Inr (Array (v0 # ws)), s'')
             | r \<Rightarrow> r)"
          using "1.IH" [OF True res [symmetric] Inr] tv by simp
        from True res Inr tv ih show ?thesis
          by (simp add: every_loop.simps [of env "a # accessors" "Suc i"]
              every_loop.simps [of env accessors i])
      qed
    qed
  qed
qed

lemma every_Cons:
  "every env (a # as) args s =
     (case resolve env a s of
        (Inl e, s') \<Rightarrow> (Inl e, s')
      | (Inr v, s') \<Rightarrow>
          if \<not> truthy v then (Inr Undefined, s')
          else (case every env as args s' of
                  (Inr (Array ws), s'') \<Rightarrow> (Inr (Array (v # ws)), s'')
                | r \<Rightarrow> r))"
proof -
  have "every_loop env (a # as) (Suc 0) (v # replicate (length as) Undefined) s' =
      (case every env as args s' of
         (Inr (Array ws), s'') \<Rightarrow> (Inr (Array (v # ws)), s'')
       | r \<Rightarrow> r)" for v s'
    by (simp add: every_loop_shift every_def)
  then show ?thesis
    by (simp add: every_def every_loop.simps [of env "a # as" 0] split: prod.splits sum.splits)
qed

lemma every_shape_disj:
  "(\<exists>e s'. every env xs args s = (Inl e, s'))
   \<or> (\<exists>s'. every env xs args s = (Inr Undefined, s'))
   \<or> (\<exists>vs s'. every env xs args s = (Inr (Array vs), s'))"
proof (induction xs arbitrary: s)
  case Nil
  show ?case by (simp add: every_Nil)
next
  case (Cons a xs)
  obtain r s' where ra: "resolve env a s = (r, s')"
    by (cases "resolve env a s")
  show ?case
  proof (cases r)
    case (Inl e)
    with ra show ?thesis by (simp add: every_Cons)
  next
    case (Inr v)
    show ?thesis
    proof (cases "truthy v")
      case False
      with ra Inr show ?thesis by (simp add: every_Cons)
    next
      case True
      from Cons.IH [of s'] show ?thesis
        using ra Inr True by (auto simp: every_Cons)
    qed
  qed
qed

lemma every_shape:
  obtains (throws) e s' where "every env xs args s = (Inl e, s')"
  | (absent) s' where "every env xs args s = (Inr Undefined, s')"
  | (tuple) vs s' where "every env xs args s = (Inr (Array vs), s')"
  using every_shape_disj [of env xs args s] by blast

lemma every_append:
  assumes "resolve_in_order env xs s = (Inr vs, s1)" and "list_all truthy vs"
  shows "every env (xs @ ys) args s =
    (case every env ys args s1 of
       (Inr (Array ws), s') \<Rightarrow> (Inr (Array (vs @ ws)), s')
     | r \<Rightarrow> r)"
  using assms
proof (induction xs arbitrary: s vs)
  case Nil
  then show ?case by (cases rule: every_shape [of env ys args s1]) simp_all
next
  case (Cons a xs)
  from Cons.prems(1) obtain v s' vs' where
    ra: "resolve env a s = (Inr v, s')" and
    rest: "resolve_in_order env xs s' = (Inr vs', s1)" and
    vs: "vs = v # vs'"
    by (auto split: prod.splits sum.splits)
  from Cons.prems(2) vs have tv: "truthy v" and tvs: "list_all truthy vs'" by simp_all
  show ?case
    using ra tv vs Cons.IH [OF rest tvs]
    by (cases rule: every_shape [of env ys args s1]) (simp_all add: every_Cons)
qed

lemma resolve_in_order_length:
  "resolve_in_order env xs s = (Inr vs, s') \<Longrightarrow> length vs = length xs"
  by (induction xs arbitrary: s vs) (auto split: prod.splits sum.splits)

lemma every_all_truthy:
  assumes "resolve_in_order env xs s = (Inr vs, s1)" and "list_all truthy vs"
  shows "every env xs args s = (Inr (Array vs), s1)"
  using every_append [OF assms, of "[]" args] by (simp add: every_Nil)

lemma every_Array_only_if:
  "every env xs args s = (Inr (Array vs), s1) \<Longrightarrow>
     resolve_in_order env xs s = (Inr vs, s1) \<and> list_all truthy vs"
proof (induction xs arbitrary: s vs)
  case Nil
  then show ?case by (auto simp: every_Nil)
next
  case (Cons a xs)
  obtain r s' where ra: "resolve env a s = (r, s')"
    by (cases "resolve env a s")
  show ?case
  proof (cases r)
    case (Inl e)
    with ra Cons.prems show ?thesis by (simp add: every_Cons)
  next
    case (Inr v)
    show ?thesis
    proof (cases "truthy v")
      case False
      with ra Inr Cons.prems show ?thesis by (simp add: every_Cons)
    next
      case True
      show ?thesis
      proof (cases rule: every_shape [of env xs args s'])
        case (throws e s'')
        with ra Inr True Cons.prems show ?thesis by (simp add: every_Cons)
      next
        case (absent s'')
        with ra Inr True Cons.prems show ?thesis by (simp add: every_Cons)
      next
        case (tuple ws s'')
        with ra Inr True Cons.prems have "vs = v # ws" and "s'' = s1"
          by (simp_all add: every_Cons)
        with tuple Cons.IH [of s' ws] ra Inr True show ?thesis by simp
      qed
    qed
  qed
qed

lemma every_some_falsy:
  assumes "resolve_in_order env xs s = (Inr vs, s1)" and "\<not> list_all truthy vs"
  shows "fst (every env xs args s) = Inr Undefined"
  using assms
proof (induction xs arbitrary: s vs)
  case Nil
  then show ?case by simp
next
  case (Cons a xs)
  from Cons.prems(1) obtain v s0 vs' where
    ra: "resolve env a s = (Inr v, s0)" and
    rest: "resolve_in_order env xs s0 = (Inr vs', s1)" and
    vs: "vs = v # vs'"
    by (auto split: prod.splits sum.splits)
  show ?case
  proof (cases "truthy v")
    case False
    with ra show ?thesis by (simp add: every_Cons)
  next
    case True
    with Cons.prems(2) vs have nt: "\<not> list_all truthy vs'" by simp
    from Cons.IH [OF rest nt] ra True show ?thesis
      by (cases rule: every_shape [of env xs args s0]) (simp_all add: every_Cons)
  qed
qed

lemma resolve_in_order_literals:
  "\<forall>a \<in> set xs. typeof a \<noteq> ''function'' \<Longrightarrow> resolve_in_order env xs s = (Inr xs, s)"
  by (induction xs) (simp_all add: resolve_def)

lemma every_literals:
  "\<forall>a \<in> set xs. typeof a \<noteq> ''function'' \<Longrightarrow>
     every env xs args s = (Inr (if list_all truthy xs then Array xs else Undefined), s)"
  by (induction xs) (simp_all add: every_Nil every_Cons resolve_def)

text \<open>
  C3. A call of the producer returns an array exactly when the inputs, resolved in order,
  are all truthy, and the array then holds the resolved values themselves, one per input
  and in the order of the inputs. When all inputs resolve and one of the values is falsy
  the call returns undefined. Inputs that are not functions are their own resolved values.
  With no inputs the call returns the empty array.
\<close>

theorem every_tuple_iff_all_truthy:
  "(every env inputs args s = (Inr (Array vs), s')) =
      (resolve_in_order env inputs s = (Inr vs, s') \<and> list_all truthy vs)
   \<and> (resolve_in_order env inputs s = (Inr ws, s'') \<longrightarrow>
        length ws = length inputs
        \<and> fst (every env inputs args s) = Inr (if list_all truthy ws then Array ws else Undefined))
   \<and> ((\<forall>a \<in> set inputs. typeof a \<noteq> ''function'') \<longrightarrow>
        every env inputs args s
          = (Inr (if list_all truthy inputs then Array inputs else Undefined), s))
   \<and> every env [] args s = (Inr (Array []), s)
   \<and> Array [] \<noteq> Undefined"
proof (intro conjI impI)
  show "(every env inputs args s = (Inr (Array vs), s')) =
      (resolve_in_order env inputs s = (Inr vs, s') \<and> list_all truthy vs)"
    using every_Array_only_if [of env inputs args s vs s']
      every_all_truthy [of env inputs s vs s' args] by blast
next
  assume r: "resolve_in_order env inputs s = (Inr ws, s'')"
  then show "length ws = length inputs" by (rule resolve_in_order_length)
  show "fst (every env inputs args s) = Inr (if list_all truthy ws then Array ws else Undefined)"
    using every_all_truthy [OF r, of args] every_some_falsy [OF r, of args] by simp
next
  assume "\<forall>a \<in> set inputs. typeof a \<noteq> ''function''"
  then show "every env inputs args s
      = (Inr (if list_all truthy inputs then Array inputs else Undefined), s)"
    by (rule every_literals)
next
  show "every env [] args s = (Inr (Array []), s)" by (rule every_Nil)
next
  show "Array [] \<noteq> Undefined" by simp
qed

theorem every_tuple_iff_all_truthy_witness:
  "every test_env [Number (Fin 1), Str ''a'', Object 0] [] world0
     = (Inr (Array [Number (Fin 1), Str ''a'', Object 0]), world0)
   \<and> every test_env [Number (Fin 1), Number (Fin 0), Str ''a''] [] world0
     = (Inr Undefined, world0)
   \<and> resolve_in_order test_env [Symbol 1, Function 0, BigInt 123] (signal_is (Object 7))
     = (Inr [Symbol 1, Object 7, BigInt 123], \<lparr>signal = Object 7, calls = [(Producer 0, [])]\<rparr>)
   \<and> every test_env [Symbol 1, Function 0, BigInt 123] [] (signal_is (Object 7))
     = (Inr (Array [Symbol 1, Object 7, BigInt 123]),
        \<lparr>signal = Object 7, calls = [(Producer 0, [])]\<rparr>)"
proof -
  have lits: "\<forall>a \<in> set [Number (Fin 1), Str ''a'', Object 0]. typeof a \<noteq> ''function''"
    "\<forall>a \<in> set [Number (Fin 1), Number (Fin 0), Str ''a'']. typeof a \<noteq> ''function''"
    by simp_all
  have r: "resolve_in_order test_env [Symbol 1, Function 0, BigInt 123] (signal_is (Object 7))
     = (Inr [Symbol 1, Object 7, BigInt 123], \<lparr>signal = Object 7, calls = [(Producer 0, [])]\<rparr>)"
    by (simp add: resolve_def test_env_def mock_def read_signal_def signal_is_def)
  note lit = every_tuple_iff_all_truthy [THEN conjunct2, THEN conjunct2, THEN conjunct1, THEN mp]
  note iff = every_tuple_iff_all_truthy [THEN conjunct1]
  note res = every_tuple_iff_all_truthy [THEN conjunct2, THEN conjunct1, THEN mp]
  show ?thesis
    using res [OF r, of "[]"] lit [OF lits(1), of test_env "[]" world0] lit [OF lits(2), of test_env "[]" world0] r
      iff [of test_env "[Symbol 1, Function 0, BigInt 123]" "[]" "signal_is (Object 7)"
        "[Symbol 1, Object 7, BigInt 123]" "\<lparr>signal = Object 7, calls = [(Producer 0, [])]\<rparr>"]
    by simp
qed

text \<open>
  C4. The inputs are resolved from index 0 upwards, each in the state left by the one
  before. When the inputs before index \<open>i\<close> resolve truthy and the input at \<open>i\<close>
  resolves falsy, the call returns undefined in the state left by the resolution of input
  \<open>i\<close>, whatever the inputs after \<open>i\<close> are: none of them has been resolved.
\<close>

theorem every_short_circuits:
  assumes "i < length inputs"
    and "resolve_in_order env (take i inputs) s = (Inr vs, s1)"
    and "list_all truthy vs"
    and "resolve env (inputs ! i) s1 = (Inr v, s2)"
    and "\<not> truthy v"
  shows "every env inputs args s = (Inr Undefined, s2)
       \<and> every env (take i inputs @ inputs ! i # others) args s = (Inr Undefined, s2)"
proof -
  have stop: "every env (take i inputs @ inputs ! i # rest) args s = (Inr Undefined, s2)" for rest
    using assms(4,5) by (simp add: every_append [OF assms(2,3)] every_Cons)
  from stop [of "drop (Suc i) inputs"] assms(1) have "every env inputs args s = (Inr Undefined, s2)"
    by (simp add: id_take_nth_drop [symmetric])
  with stop [of others] show ?thesis by simp
qed

theorem every_short_circuits_witness:
  "resolve_in_order test_env (take (Suc 0) [Function 5, Function 0, Function 6]) world0
     = (Inr [Boolean True], world0\<lparr>calls := [(Producer 5, [])]\<rparr>)
   \<and> resolve test_env ([Function 5, Function 0, Function 6] ! Suc 0)
        (world0\<lparr>calls := [(Producer 5, [])]\<rparr>)
     = (Inr Null, world0\<lparr>calls := [(Producer 5, []), (Producer 0, [])]\<rparr>)
   \<and> every test_env [Function 5, Function 0, Function 6] [] world0
     = (Inr Undefined, world0\<lparr>calls := [(Producer 5, []), (Producer 0, [])]\<rparr>)"
proof -
  have len: "Suc 0 < length [Function 5, Function 0, Function 6]" by simp
  have pre: "resolve_in_order test_env (take (Suc 0) [Function 5, Function 0, Function 6]) world0
     = (Inr [Boolean True], world0\<lparr>calls := [(Producer 5, [])]\<rparr>)"
    by (simp add: resolve_def test_env_def mock_def returns_def world0_def)
  have tr: "list_all truthy [Boolean True]" by simp
  have at: "resolve test_env ([Function 5, Function 0, Function 6] ! Suc 0)
        (world0\<lparr>calls := [(Producer 5, [])]\<rparr>)
     = (Inr Null, world0\<lparr>calls := [(Producer 5, []), (Producer 0, [])]\<rparr>)"
    by (simp add: resolve_def test_env_def mock_def read_signal_def world0_def)
  have fa: "\<not> truthy Null" by simp
  from every_short_circuits [OF len pre tr at fa, of "[]" "[]"] pre at show ?thesis by simp
qed

section \<open>The adapted memo\<close>

lemma store_result_twice [simp]:
  "store_result (m\<lparr>previous := r\<rparr>) out = store_result m out"
  by (cases "(m, out)" rule: store_result.cases) simp_all

lemma invoke_gated_memo:
  assumes "compute m = when_fn env input cb fb"
    and "resolve env input s = (Inr v, s0)"
  shows "invoke_memo m s =
    store_result m
      (if truthy v then cb [v, previous m] s0
       else case fb of Some f \<Rightarrow> f [previous m] s0 | None \<Rightarrow> (Inr Undefined, s0))"
  using assms by (simp add: invoke_memo_def when_resolved)

lemma whenMemo_initial:
  "compute (whenMemo env input cb fb) = when_fn env input cb fb"
  "previous (whenMemo env input cb fb) = Undefined"
  by (simp_all add: whenMemo_def whenify_def createMemo_def)

text \<open>
  C7. Take a memo built on the gated function, in any state of its slot, and let an
  invocation run a branch that returns \<open>r\<close>. The host stores \<open>r\<close>, and on the next
  invocation whichever branch runs gets \<open>r\<close> as its previous value: the callback as
  the argument after the resolved value, the fallback as its one argument. It does not
  matter which branch returned \<open>r\<close>. On the first invocation of a fresh memo the
  previous value is the host's initial one, undefined.
\<close>

theorem previous_is_last_branch_result:
  assumes "compute m = when_fn env input cb fb"
    and "resolve env input s = (Inr v, s0)"
    and "truthy v \<or> fb \<noteq> None"
    and "(if truthy v then cb [v, previous m] s0
          else case fb of Some f \<Rightarrow> f [previous m] s0 | None \<Rightarrow> (Inr Undefined, s0))
         = (Inr r, s1)"
    and "resolve env input s2 = (Inr v2, s3)"
  shows "invoke_memo m s = (Inr (m\<lparr>previous := r\<rparr>), s1)
     \<and> invoke_memo (m\<lparr>previous := r\<rparr>) s2 =
         store_result m
           (if truthy v2 then cb [v2, r] s3
            else case fb of Some f \<Rightarrow> f [r] s3 | None \<Rightarrow> (Inr Undefined, s3))
     \<and> invoke_memo (whenMemo env input cb fb) s =
         store_result (whenMemo env input cb fb)
           (if truthy v then cb [v, Undefined] s0
            else case fb of Some f \<Rightarrow> f [Undefined] s0 | None \<Rightarrow> (Inr Undefined, s0))"
proof (intro conjI)
  show "invoke_memo m s = (Inr (m\<lparr>previous := r\<rparr>), s1)"
    using assms(4) by (simp add: invoke_gated_memo [OF assms(1,2)])
  have "compute (m\<lparr>previous := r\<rparr>) = when_fn env input cb fb"
    using assms(1) by simp
  from invoke_gated_memo [OF this assms(5)]
  show "invoke_memo (m\<lparr>previous := r\<rparr>) s2 =
         store_result m
           (if truthy v2 then cb [v2, r] s3
            else case fb of Some f \<Rightarrow> f [r] s3 | None \<Rightarrow> (Inr Undefined, s3))"
    by (simp split: option.splits)
  from invoke_gated_memo [OF whenMemo_initial(1) assms(2), of cb fb]
  show "invoke_memo (whenMemo env input cb fb) s =
         store_result (whenMemo env input cb fb)
           (if truthy v then cb [v, Undefined] s0
            else case fb of Some f \<Rightarrow> f [Undefined] s0 | None \<Rightarrow> (Inr Undefined, s0))"
    by (simp add: whenMemo_initial split: option.splits)
qed

text \<open>
  The memo test: the signal is null and then 5. The fallback runs on undefined and
  returns -1; the callback then runs on 5 and -1.
\<close>

theorem previous_is_last_branch_result_witness:
  "invoke_memo memo_with_fallback world0
     = (Inr (memo_with_fallback\<lparr>previous := Number (Fin (- 1))\<rparr>),
        world0\<lparr>calls := [(Producer 0, []), (Fallback, [Undefined])]\<rparr>)
   \<and> invoke_memo (memo_with_fallback\<lparr>previous := Number (Fin (- 1))\<rparr>)
        (signal_is (Number (Fin 5)))
     = (Inr (memo_with_fallback\<lparr>previous := Number (Fin 10)\<rparr>),
        \<lparr>signal = Number (Fin 5),
         calls = [(Producer 0, []), (Callback, [Number (Fin 5), Number (Fin (- 1))])]\<rparr>)"
proof -
  let ?fb = "Some (mock Fallback (returns (Number (Fin (- 1)))))"
  have c: "compute memo_with_fallback = when_fn test_env (Function 0) (mock Callback double) ?fb"
    and p: "previous memo_with_fallback = Undefined"
    by (simp_all add: memo_with_fallback_def whenMemo_initial)
  have r1: "resolve test_env (Function 0) world0
      = (Inr Null, world0\<lparr>calls := [(Producer 0, [])]\<rparr>)"
    by (simp add: resolve_def test_env_def mock_def read_signal_def world0_def)
  have br: "truthy Null \<or> ?fb \<noteq> None" by simp
  have ret: "(if truthy Null
        then mock Callback double [Null, previous memo_with_fallback]
               (world0\<lparr>calls := [(Producer 0, [])]\<rparr>)
        else case ?fb of
               Some f \<Rightarrow> f [previous memo_with_fallback] (world0\<lparr>calls := [(Producer 0, [])]\<rparr>)
             | None \<Rightarrow> (Inr Undefined, world0\<lparr>calls := [(Producer 0, [])]\<rparr>))
      = (Inr (Number (Fin (- 1))),
         world0\<lparr>calls := [(Producer 0, []), (Fallback, [Undefined])]\<rparr>)"
    by (simp add: p mock_def returns_def world0_def)
  have r2: "resolve test_env (Function 0) (signal_is (Number (Fin 5)))
      = (Inr (Number (Fin 5)), \<lparr>signal = Number (Fin 5), calls = [(Producer 0, [])]\<rparr>)"
    by (simp add: resolve_def test_env_def mock_def read_signal_def signal_is_def)
  from previous_is_last_branch_result [OF c r1 br ret r2] show ?thesis
    by (simp add: mock_def double_def)
qed

text \<open>
  C10. Without a fallback, an invocation whose input resolves falsy returns undefined,
  and the host stores it: the slot is undefined afterwards, whatever it held before. On
  the next invocation the callback, if it runs, gets undefined as the previous value.
\<close>

theorem falsy_interlude_resets_previous:
  assumes "compute m = when_fn env input cb None"
    and "resolve env input s = (Inr v, s0)"
    and "\<not> truthy v"
    and "resolve env input s2 = (Inr v2, s3)"
  shows "when_fn env input cb None [previous m] s = (Inr Undefined, s0)
     \<and> invoke_memo m s = (Inr (m\<lparr>previous := Undefined\<rparr>), s0)
     \<and> invoke_memo (m\<lparr>previous := Undefined\<rparr>) s2 =
         store_result m (if truthy v2 then cb [v2, Undefined] s3 else (Inr Undefined, s3))"
proof (intro conjI)
  show "when_fn env input cb None [previous m] s = (Inr Undefined, s0)"
    using assms(3) by (simp add: when_resolved [OF assms(2)])
  show "invoke_memo m s = (Inr (m\<lparr>previous := Undefined\<rparr>), s0)"
    using assms(3) by (simp add: invoke_gated_memo [OF assms(1,2)])
  have "compute (m\<lparr>previous := Undefined\<rparr>) = when_fn env input cb None"
    using assms(1) by simp
  from invoke_gated_memo [OF this assms(4)]
  show "invoke_memo (m\<lparr>previous := Undefined\<rparr>) s2 =
         store_result m (if truthy v2 then cb [v2, Undefined] s3 else (Inr Undefined, s3))"
    by simp
qed

text \<open>
  The test of the return values of an effect: the callback has returned 4, the signal
  becomes null and then 3. The callback then runs on 3 and undefined, not on 3 and 4.
\<close>

theorem falsy_interlude_resets_previous_witness:
  "invoke_memo (memo_without_fallback\<lparr>previous := Number (Fin 4)\<rparr>) world0
     = (Inr (memo_without_fallback\<lparr>previous := Undefined\<rparr>),
        world0\<lparr>calls := [(Producer 0, [])]\<rparr>)
   \<and> invoke_memo (memo_without_fallback\<lparr>previous := Undefined\<rparr>)
        (signal_is (Number (Fin 3)))
     = (Inr (memo_without_fallback\<lparr>previous := Number (Fin 6)\<rparr>),
        \<lparr>signal = Number (Fin 3),
         calls = [(Producer 0, []), (Callback, [Number (Fin 3), Undefined])]\<rparr>)"
proof -
  have c: "compute (memo_without_fallback\<lparr>previous := Number (Fin 4)\<rparr>)
      = when_fn test_env (Function 0) (mock Callback double) None"
    by (simp add: memo_without_fallback_def whenMemo_initial)
  have r1: "resolve test_env (Function 0) world0
      = (Inr Null, world0\<lparr>calls := [(Producer 0, [])]\<rparr>)"
    by (simp add: resolve_def test_env_def mock_def read_signal_def world0_def)
  have fa: "\<not> truthy Null" by simp
  have r2: "resolve test_env (Function 0) (signal_is (Number (Fin 3)))
      = (Inr (Number (Fin 3)), \<lparr>signal = Number (Fin 3), calls = [(Producer 0, [])]\<rparr>)"
    by (simp add: resolve_def test_env_def mock_def read_signal_def signal_is_def)
  from falsy_interlude_resets_previous [OF c r1 fa r2] show ?thesis
    by (simp add: mock_def double_def)
qed

text \<open>
  C8, as the code has it. The adapter holds no state of its own. The previous value of a
  fresh memo is the host's undefined; an invocation stores what the gate returned, so the
  slot afterwards equals the initial one exactly when the returned value is undefined.
  The initial state is thus distinct from a returned 0 or false, not from a returned
  undefined.
\<close>

theorem initial_previous_is_undefined:
  assumes "compute m = when_fn env input cb fb"
    and "resolve env input s = (Inr v, s0)"
    and "(if truthy v then cb [v, previous m] s0
          else case fb of Some f \<Rightarrow> f [previous m] s0 | None \<Rightarrow> (Inr Undefined, s0))
         = (Inr r, s1)"
  shows "previous (whenMemo env input cb fb) = Undefined
     \<and> invoke_memo m s = (Inr (m\<lparr>previous := r\<rparr>), s1)
     \<and> (previous (m\<lparr>previous := r\<rparr>) = previous (whenMemo env input cb fb)) = (r = Undefined)
     \<and> previous (whenMemo env input cb fb) \<notin> {Number (Fin 0), Boolean False}"
  using assms(3) by (simp add: invoke_gated_memo [OF assms(1,2)] whenMemo_initial)

theorem initial_previous_is_undefined_witness:
  "invoke_memo memo_without_fallback (signal_is (Number (Fin 0)))
     = (Inr (memo_without_fallback\<lparr>previous := Undefined\<rparr>),
        \<lparr>signal = Number (Fin 0), calls = [(Producer 0, [])]\<rparr>)
   \<and> previous (whenMemo test_env (Function 0) (mock Callback double) None) = Undefined"
proof -
  have c: "compute memo_without_fallback
      = when_fn test_env (Function 0) (mock Callback double) None"
    by (simp add: memo_without_fallback_def whenMemo_initial)
  have r1: "resolve test_env (Function 0) (signal_is (Number (Fin 0)))
      = (Inr (Number (Fin 0)), \<lparr>signal = Number (Fin 0), calls = [(Producer 0, [])]\<rparr>)"
    by (simp add: resolve_def test_env_def mock_def read_signal_def signal_is_def)
  have ret: "(if truthy (Number (Fin 0))
        then mock Callback double [Number (Fin 0), previous memo_without_fallback]
               \<lparr>signal = Number (Fin 0), calls = [(Producer 0, [])]\<rparr>
        else case None of
               Some f \<Rightarrow> f [previous memo_without_fallback]
                          \<lparr>signal = Number (Fin 0), calls = [(Producer 0, [])]\<rparr>
             | None \<Rightarrow> (Inr Undefined, \<lparr>signal = Number (Fin 0), calls = [(Producer 0, [])]\<rparr>))
      = (Inr Undefined, \<lparr>signal = Number (Fin 0), calls = [(Producer 0, [])]\<rparr>)"
    by simp
  from initial_previous_is_undefined [OF c r1 ret] show ?thesis by simp
qed

text \<open>
  C8, as the claim states it, fails: a callback that returns undefined leaves the memo
  exactly as it was created. Nothing tells "no previous result" from "the previous
  result was undefined".
\<close>

theorem initial_previous_counterexample:
  "previous memo_returning_undefined = Undefined
   \<and> invoke_memo memo_returning_undefined world0
     = (Inr memo_returning_undefined, world0\<lparr>calls := [(Callback, [Boolean True, Undefined])]\<rparr>)"
  by (simp add: memo_returning_undefined_def whenMemo_def whenify_def createMemo_def
      invoke_memo_def when_fn_def check_def resolve_def mock_def returns_def world0_def)

section \<open>Function-valued inputs\<close>

lemma typeof_function: "(typeof v = ''function'') = (\<exists>f. v = Function f)"
  by (cases v) simp_all

text \<open>
  C9, as the code has it. An input whose \<open>typeof\<close> is function is always called, with
  no arguments, and \<open>check\<close>, \<open>when\<close> and \<open>every\<close> gate on what the call returns:
  the input is never taken as a value without being called. For \<open>every\<close> this holds
  at any index: once the inputs before it have resolved truthy, the function is called in
  the state they left, a falsy result ends the call with undefined, and a truthy result,
  not the function, is the array's element at that index. What the call returns may be
  any value, a function included.
\<close>

theorem function_input_is_called:
  assumes "typeof input = ''function''"
  shows "\<exists>f. input = Function f
     \<and> resolve env input s = env f [] s
     \<and> check env input cb fb s =
         (case env f [] s of
            (Inl e, s') \<Rightarrow> (Inl e, s')
          | (Inr v, s') \<Rightarrow>
              if truthy v then cb [v] s'
              else (case fb of Some g \<Rightarrow> g [] s' | None \<Rightarrow> (Inr Undefined, s')))
     \<and> when_fn env input cb fb args s =
         (case env f [] s of
            (Inl e, s') \<Rightarrow> (Inl e, s')
          | (Inr v, s') \<Rightarrow>
              if truthy v then cb (v # args) s'
              else (case fb of Some g \<Rightarrow> g args s' | None \<Rightarrow> (Inr Undefined, s')))
     \<and> every env [input] args s =
         (case env f [] s of
            (Inl e, s') \<Rightarrow> (Inl e, s')
          | (Inr v, s') \<Rightarrow> if truthy v then (Inr (Array [v]), s') else (Inr Undefined, s'))
     \<and> (i < length inputs \<and> inputs ! i = input
          \<and> resolve_in_order env (take i inputs) s = (Inr vs, s1) \<and> list_all truthy vs
        \<longrightarrow> every env inputs args s =
         (case env f [] s1 of
            (Inl e, s') \<Rightarrow> (Inl e, s')
          | (Inr v, s') \<Rightarrow>
              if \<not> truthy v then (Inr Undefined, s')
              else (case every env (drop (Suc i) inputs) args s' of
                      (Inr (Array ws), s'') \<Rightarrow> (Inr (Array (vs @ v # ws)), s'')
                    | r \<Rightarrow> r)))"
proof -
  from assms obtain f where f: "input = Function f"
    by (auto simp: typeof_function)
  have res: "resolve env input t = env f [] t" for t
    by (simp add: f resolve_def)
  have single: "check env input cb fb s =
         (case env f [] s of
            (Inl e, s') \<Rightarrow> (Inl e, s')
          | (Inr v, s') \<Rightarrow>
              if truthy v then cb [v] s'
              else (case fb of Some g \<Rightarrow> g [] s' | None \<Rightarrow> (Inr Undefined, s')))
     \<and> when_fn env input cb fb args s =
         (case env f [] s of
            (Inl e, s') \<Rightarrow> (Inl e, s')
          | (Inr v, s') \<Rightarrow>
              if truthy v then cb (v # args) s'
              else (case fb of Some g \<Rightarrow> g args s' | None \<Rightarrow> (Inr Undefined, s')))
     \<and> every env [input] args s =
         (case env f [] s of
            (Inl e, s') \<Rightarrow> (Inl e, s')
          | (Inr v, s') \<Rightarrow> if truthy v then (Inr (Array [v]), s') else (Inr Undefined, s'))"
    using res [of s]
    by (auto simp: check_def when_fn_def every_Cons every_Nil
        split: prod.splits sum.splits option.splits)
  have general: "every env inputs args s =
         (case env f [] s1 of
            (Inl e, s') \<Rightarrow> (Inl e, s')
          | (Inr v, s') \<Rightarrow>
              if \<not> truthy v then (Inr Undefined, s')
              else (case every env (drop (Suc i) inputs) args s' of
                      (Inr (Array ws), s'') \<Rightarrow> (Inr (Array (vs @ v # ws)), s'')
                    | r \<Rightarrow> r))"
    if i: "i < length inputs" and at: "inputs ! i = input"
      and pre: "resolve_in_order env (take i inputs) s = (Inr vs, s1)"
      and tr: "list_all truthy vs"
  proof -
    let ?rest = "drop (Suc i) inputs"
    have split: "inputs = take i inputs @ input # ?rest"
      using id_take_nth_drop [OF i] unfolding at .
    have app: "every env (take i inputs @ input # ?rest) args s =
        (case every env (input # ?rest) args s1 of
           (Inr (Array ws), s') \<Rightarrow> (Inr (Array (vs @ ws)), s')
         | r \<Rightarrow> r)"
      by (rule every_append [OF pre tr])
    obtain r s' where call: "env f [] s1 = (r, s')"
      by (cases "env f [] s1")
    have "every env inputs args s = every env (take i inputs @ input # ?rest) args s"
      using split by (rule arg_cong [where f = "\<lambda>xs. every env xs args s"])
    also have "every env (take i inputs @ input # ?rest) args s =
         (case env f [] s1 of
            (Inl e, s') \<Rightarrow> (Inl e, s')
          | (Inr v, s') \<Rightarrow>
              if \<not> truthy v then (Inr Undefined, s')
              else (case every env ?rest args s' of
                      (Inr (Array ws), s'') \<Rightarrow> (Inr (Array (vs @ v # ws)), s'')
                    | r \<Rightarrow> r))"
    proof (cases r)
      case (Inl e)
      with call res [of s1] show ?thesis by (simp add: app every_Cons)
    next
      case (Inr v)
      show ?thesis
      proof (cases "truthy v")
        case False
        with call Inr res [of s1] show ?thesis by (simp add: app every_Cons)
      next
        case True
        with call Inr res [of s1] show ?thesis
          by (cases rule: every_shape [of env ?rest args s']) (simp_all add: app every_Cons)
      qed
    qed
    finally show ?thesis .
  qed
  from f res [of s] single general show ?thesis by blast
qed

text \<open>
  A producer alone and a producer after a truthy literal: in both the producer is called
  and its result, true, is what is gated on and what the array holds.
\<close>

theorem function_input_is_called_witness:
  "typeof (Function 5) = ''function''
   \<and> resolve test_env (Function 5) world0
       = (Inr (Boolean True), world0\<lparr>calls := [(Producer 5, [])]\<rparr>)
   \<and> check test_env (Function 5) (mock Callback identity) None world0
       = (Inr (Boolean True), world0\<lparr>calls := [(Producer 5, []), (Callback, [Boolean True])]\<rparr>)
   \<and> resolve_in_order test_env (take (Suc 0) [Object 1, Function 5]) world0
       = (Inr [Object 1], world0)
   \<and> every test_env [Object 1, Function 5] [] world0
       = (Inr (Array [Object 1, Boolean True]), world0\<lparr>calls := [(Producer 5, [])]\<rparr>)"
proof -
  have t: "typeof (Function 5) = ''function''" by simp
  have h: "Suc 0 < length [Object 1, Function 5] \<and> [Object 1, Function 5] ! Suc 0 = Function 5
      \<and> resolve_in_order test_env (take (Suc 0) [Object 1, Function 5]) world0
          = (Inr [Object 1], world0)
      \<and> list_all truthy [Object 1]"
    by (simp add: resolve_def)
  from function_input_is_called [OF t, of test_env world0 "mock Callback identity" None "[]"
      "Suc 0" "[Object 1, Function 5]" "[Object 1]" world0] h
  show ?thesis
    by (simp add: test_env_def mock_def returns_def identity_def world0_def every_Nil)
qed

text \<open>
  C9, as the claim states it, fails: a function that returns itself is the checked value
  of its own call, and a function that returns another function makes that one the value
  the callback gets.
\<close>

theorem function_value_gated_counterexample:
  "typeof (Function 2) = ''function''
   \<and> check test_env (Function 2) (mock Callback identity) None world0
       = (Inr (Function 2), world0\<lparr>calls := [(Producer 2, []), (Callback, [Function 2])]\<rparr>)
   \<and> check test_env (Function 3) (mock Callback identity) None world0
       = (Inr (Function 4), world0\<lparr>calls := [(Producer 3, []), (Callback, [Function 4])]\<rparr>)"
  by (simp add: check_def resolve_def test_env_def mock_def returns_def identity_def world0_def)

section \<open>Errors\<close>

text \<open>
  C6. Nothing is caught. An error thrown by a producer input is the result of
  \<open>resolve\<close>, of \<open>check\<close> and of the gated function, in the state the throw left:
  neither the callback nor the fallback has run. An error thrown by the callback or by the
  fallback is the result of \<open>check\<close> and of the gated function. When the inputs of
  \<open>every\<close> before index \<open>i\<close> resolve truthy and the input at \<open>i\<close> throws, the call
  throws that error; an array that \<open>every\<close> returns has one truthy value per input.
  An error of the gated function is the error of the memo's invocation.
\<close>

theorem errors_propagate_unchanged:
  "(env f [] s = (Inl e, s') \<longrightarrow> resolve env (Function f) s = (Inl e, s'))
   \<and> (resolve env input s = (Inl e, s') \<longrightarrow>
        check env input cb fb s = (Inl e, s') \<and> when_fn env input cb fb args s = (Inl e, s'))
   \<and> (resolve env input s = (Inr v, s0) \<and> truthy v \<and> cb [v] s0 = (Inl e, s') \<longrightarrow>
        check env input cb fb s = (Inl e, s'))
   \<and> (resolve env input s = (Inr v, s0) \<and> \<not> truthy v \<and> g [] s0 = (Inl e, s') \<longrightarrow>
        check env input cb (Some g) s = (Inl e, s'))
   \<and> (resolve env input s = (Inr v, s0) \<and> truthy v \<and> cb (v # args) s0 = (Inl e, s') \<longrightarrow>
        when_fn env input cb fb args s = (Inl e, s'))
   \<and> (resolve env input s = (Inr v, s0) \<and> \<not> truthy v \<and> g args s0 = (Inl e, s') \<longrightarrow>
        when_fn env input cb (Some g) args s = (Inl e, s'))
   \<and> (i < length inputs \<and> resolve_in_order env (take i inputs) s = (Inr vs, s1)
        \<and> list_all truthy vs \<and> resolve env (inputs ! i) s1 = (Inl e, s') \<longrightarrow>
        every env inputs args s = (Inl e, s'))
   \<and> (every env inputs args s = (Inr (Array ws), s2) \<longrightarrow>
        length ws = length inputs \<and> list_all truthy ws)
   \<and> (when_fn env input cb fb [Undefined] s = (Inl e, s') \<longrightarrow>
        whenify env (\<lambda>fn. fn [Undefined] s) input cb fb = (Inl e, s')
        \<and> invoke_memo (whenMemo env input cb fb) s = (Inl e, s'))"
proof (intro conjI impI; (elim conjE)?)
  assume "env f [] s = (Inl e, s')"
  then show "resolve env (Function f) s = (Inl e, s')" by (simp add: resolve_def)
next
  assume r: "resolve env input s = (Inl e, s')"
  then show "check env input cb fb s = (Inl e, s')" by (rule check_throws)
  from r show "when_fn env input cb fb args s = (Inl e, s')" by (rule when_throws)
next
  assume "resolve env input s = (Inr v, s0)" "truthy v" "cb [v] s0 = (Inl e, s')"
  then show "check env input cb fb s = (Inl e, s')" by (simp add: check_resolved)
next
  assume "resolve env input s = (Inr v, s0)" "\<not> truthy v" "g [] s0 = (Inl e, s')"
  then show "check env input cb (Some g) s = (Inl e, s')" by (simp add: check_resolved)
next
  assume "resolve env input s = (Inr v, s0)" "truthy v" "cb (v # args) s0 = (Inl e, s')"
  then show "when_fn env input cb fb args s = (Inl e, s')" by (simp add: when_resolved)
next
  assume "resolve env input s = (Inr v, s0)" "\<not> truthy v" "g args s0 = (Inl e, s')"
  then show "when_fn env input cb (Some g) args s = (Inl e, s')" by (simp add: when_resolved)
next
  assume i: "i < length inputs"
    and pre: "resolve_in_order env (take i inputs) s = (Inr vs, s1)"
    and tr: "list_all truthy vs"
    and th: "resolve env (inputs ! i) s1 = (Inl e, s')"
  have "every env (take i inputs @ inputs ! i # drop (Suc i) inputs) args s = (Inl e, s')"
    using th by (simp add: every_append [OF pre tr] every_Cons)
  with i show "every env inputs args s = (Inl e, s')"
    by (simp add: id_take_nth_drop [symmetric])
next
  assume a: "every env inputs args s = (Inr (Array ws), s2)"
  from every_Array_only_if [OF a] show "length ws = length inputs" "list_all truthy ws"
    by (auto dest: resolve_in_order_length)
next
  assume g: "when_fn env input cb fb [Undefined] s = (Inl e, s')"
  then show "whenify env (\<lambda>fn. fn [Undefined] s) input cb fb = (Inl e, s')"
    by (simp add: whenify_def)
  from g show "invoke_memo (whenMemo env input cb fb) s = (Inl e, s')"
    by (simp add: invoke_memo_def whenMemo_initial)
qed

text \<open>
  The tests of the error handling: a throwing accessor (the callback is not called), a
  throwing callback, and a throwing accessor in the middle of the inputs of \<open>every\<close>
  (the producer after it is not called).
\<close>

theorem errors_propagate_unchanged_witness:
  "check test_env (Function 1) (mock Callback identity) (Some (mock Fallback identity)) world0
     = (Inl (Thrown (Str ''Accessor error'')), world0\<lparr>calls := [(Producer 1, [])]\<rparr>)
   \<and> check test_env (Boolean True) (mock Callback (throws ''Test error'')) None world0
     = (Inl (Thrown (Str ''Test error'')), world0\<lparr>calls := [(Callback, [Boolean True])]\<rparr>)
   \<and> every test_env [Boolean True, Function 1, Function 5] [] world0
     = (Inl (Thrown (Str ''Accessor error'')), world0\<lparr>calls := [(Producer 1, [])]\<rparr>)"
proof -
  let ?e = "Thrown (Str ''Accessor error'')"
  let ?w = "world0\<lparr>calls := [(Producer 1, [])]\<rparr>"
  have r1: "resolve test_env (Function 1) world0 = (Inl ?e, ?w)"
    by (simp add: resolve_def test_env_def mock_def throws_def world0_def)
  have r2: "resolve test_env (Boolean True) world0 = (Inr (Boolean True), world0)
      \<and> truthy (Boolean True)
      \<and> mock Callback (throws ''Test error'') [Boolean True] world0
          = (Inl (Thrown (Str ''Test error'')), world0\<lparr>calls := [(Callback, [Boolean True])]\<rparr>)"
    by (simp add: resolve_def mock_def throws_def world0_def)
  have r3: "Suc 0 < length [Boolean True, Function 1, Function 5]
      \<and> resolve_in_order test_env (take (Suc 0) [Boolean True, Function 1, Function 5]) world0
          = (Inr [Boolean True], world0)
      \<and> list_all truthy [Boolean True]
      \<and> resolve test_env ([Boolean True, Function 1, Function 5] ! Suc 0) world0 = (Inl ?e, ?w)"
    by (simp add: resolve_def test_env_def mock_def throws_def world0_def)
  note t = errors_propagate_unchanged
  from t [THEN conjunct2, THEN conjunct1, THEN mp, THEN conjunct1, OF r1]
    t [where cb = "mock Callback (throws ''Test error'')" and fb = None and v = "Boolean True"
        and ?s0.0 = world0,
       THEN conjunct2, THEN conjunct2, THEN conjunct1, THEN mp, OF r2]
    t [THEN conjunct2, THEN conjunct2, THEN conjunct2, THEN conjunct2, THEN conjunct2,
       THEN conjunct2, THEN conjunct1, THEN mp, OF r3]
  show ?thesis by simp
qed

end
